theory Spec2Isabelle
  imports Main "HOL-Library.Word" "HOL-Library.Signed_Division"
begin

section \<open>Helpers of safe\_common.h: element sizes, volumes, string splitting\<close>

subsection \<open>Machine integers and faults\<close>

type_synonym int32_t = "32 word"
type_synonym int64_t = "64 word"
type_synonym uint32_t = "32 word"

text \<open>
  The arithmetic helpers have no error path of their own, but C++ gives no result for a
  division by zero, for the quotient \<open>INT_MIN / -1\<close> and for an array access outside the
  array. Each becomes a fault of the model. Signed addition and multiplication are taken
  in two's complement (they wrap), which is what the target machines compute.
\<close>

datatype fault = DivideByZero | DivideOverflow | IndexOutOfRange

subsection \<open>elementSize\<close>

text \<open>
  \<open>nvinfer1::DataType\<close> is declared in the vendor header NvInferRuntimeCommon.h as an
  enumeration over \<open>int32_t\<close>. The source names seven enumerators; their numeric codes
  are a parameter of the model. An object of the enumeration type may hold any value of the
  underlying type, so \<open>elementSize\<close> takes the code.
\<close>

record DataType =
  kFLOAT :: int32_t
  kHALF :: int32_t
  kINT8 :: int32_t
  kINT32 :: int32_t
  kBOOL :: int32_t
  kUINT8 :: int32_t
  kFP8 :: int32_t

text \<open>The labels of the switch, in the order of the source.\<close>

definition case_labels :: "DataType \<Rightarrow> int32_t list" where
  "case_labels E = [kINT32 E, kFLOAT E, kHALF E, kINT8 E, kUINT8 E, kBOOL E, kFP8 E]"

definition elementSize :: "DataType \<Rightarrow> int32_t \<Rightarrow> uint32_t" where
  "elementSize E t =
     (if t = kINT32 E \<or> t = kFLOAT E then 4
      else if t = kHALF E then 2
      else if t = kINT8 E then 1
      else if t = kUINT8 E then 1
      else if t = kBOOL E then 1
      else if t = kFP8 E then 1
      else 0)"

text \<open>The codes of the vendor header, used to run the model on concrete inputs.\<close>

definition tensorrt_DataType :: DataType where
  "tensorrt_DataType =
     \<lparr>kFLOAT = 0, kHALF = 1, kINT8 = 2, kINT32 = 3, kBOOL = 4, kUINT8 = 5, kFP8 = 6\<rparr>"

subsection \<open>volume and roundUp\<close>

text \<open>
  \<open>nvinfer1::Dims\<close>: a count and a fixed array of extents. The array is a list whose
  length is the array's capacity. Both \<open>roundUp\<close> arguments have one type \<open>T\<close>, and
  \<open>comps\<close> is an \<open>int32_t\<close>, so the extents are \<open>int32_t\<close>.
\<close>

record Dims =
  nbDims :: int32_t
  d :: "int32_t list"

definition INT32_MIN :: int32_t where
  "INT32_MIN = word_of_int (- (2 ^ 31))"

text \<open>\<open>((m + n - 1) / n) * n\<close> at \<open>T = int32_t\<close>; the division truncates towards zero.\<close>

definition roundUp :: "int32_t \<Rightarrow> int32_t \<Rightarrow> fault + int32_t" where
  "roundUp m n =
     (if n = 0 then Inl DivideByZero
      else if m + n - 1 = INT32_MIN \<and> n = - 1 then Inl DivideOverflow
      else Inr (word_of_int (sint (m + n - 1) sdiv sint n) * n))"

text \<open>
  \<open>std::accumulate(d.d, d.d + d.nbDims, int64_t{1}, std::multiplies<int64_t>{})\<close>:
  each extent is widened to 64 bits and multiplied into the accumulator, from the left.
\<close>

definition volume :: "Dims \<Rightarrow> fault + int64_t" where
  "volume dims =
     (if sint (nbDims dims) < 0 \<or> int (length (d dims)) < sint (nbDims dims)
      then Inl IndexOutOfRange
      else Inr (foldl (\<lambda>acc x. acc * scast x) 1 (take (nat (sint (nbDims dims))) (d dims))))"

text \<open>\<open>std::max(batch, 1)\<close> on \<open>int32_t\<close>: \<open>(a < b) ? b : a\<close>, compared as signed.\<close>

definition max_int32 :: "int32_t \<Rightarrow> int32_t \<Rightarrow> int32_t" where
  "max_int32 a b = (if sint a < sint b then b else a)"

text \<open>
  The four-argument overload. \<open>dims\<close> is passed by value, so the update is local.
\<close>

definition volume4 :: "Dims \<Rightarrow> int32_t \<Rightarrow> int32_t \<Rightarrow> int32_t \<Rightarrow> fault + int64_t" where
  "volume4 dims vecDim comps batch =
     (if 0 \<le> sint vecDim then
        (if int (length (d dims)) \<le> sint vecDim then Inl IndexOutOfRange
         else
           (case roundUp (d dims ! nat (sint vecDim)) comps of
              Inl f \<Rightarrow> Inl f
            | Inr r \<Rightarrow>
                (case volume (dims\<lparr>d := (d dims)[nat (sint vecDim) := r]\<rparr>) of
                   Inl f \<Rightarrow> Inl f
                 | Inr v \<Rightarrow> Inr (v * scast (max_int32 batch 1)))))
      else
        (case volume dims of
           Inl f \<Rightarrow> Inl f
         | Inr v \<Rightarrow> Inr (v * scast (max_int32 batch 1))))"

subsection \<open>safeSplitString\<close>

text \<open>
  A \<open>std::stringstream\<close> over a string: the characters not yet read and the two state
  bits the loop can see (\<open>badbit\<close> is never set on a string buffer that is only read).
\<close>

record stringstream =
  buf :: string
  eofbit :: bool
  failbit :: bool

definition stringstream_of :: "string \<Rightarrow> stringstream" where
  "stringstream_of str = \<lparr>buf = str, eofbit = False, failbit = False\<rparr>"

definition good :: "stringstream \<Rightarrow> bool" where
  "good ss = (\<not> eofbit ss \<and> \<not> failbit ss)"

text \<open>
  The extraction loop of \<open>std::getline\<close>: characters are stored until the delimiter,
  which is removed from the stream and not stored, or until the end of the buffer.
  The result is the characters stored, the rest of the buffer, and whether the end was hit.
\<close>

fun read_until :: "char \<Rightarrow> string \<Rightarrow> string \<times> string \<times> bool" where
  "read_until delim [] = ([], [], True)"
| "read_until delim (c # cs) =
     (if c = delim then ([], cs, False)
      else (case read_until delim cs of (stored, rest, at_end) \<Rightarrow> (c # stored, rest, at_end)))"

text \<open>
  \<open>getline(ss, str, delim)\<close>. A stream that is not good fails the sentry: \<open>failbit\<close> is
  set and \<open>str\<close> is left alone. Otherwise \<open>str\<close> is erased and filled; hitting the end sets
  \<open>eofbit\<close>, and \<open>failbit\<close> is set when no character at all was taken from the stream
  (the removed delimiter counts as taken).
\<close>

definition getline :: "stringstream \<Rightarrow> string \<Rightarrow> char \<Rightarrow> stringstream \<times> string" where
  "getline ss str delim =
     (if \<not> good ss then (ss\<lparr>failbit := True\<rparr>, str)
      else
        (case read_until delim (buf ss) of
           (stored, rest, at_end) \<Rightarrow>
             (\<lparr>buf = rest, eofbit = at_end, failbit = (at_end \<and> stored = [])\<rparr>, stored)))"

text \<open>
  The \<open>while (ss.good())\<close> loop. \<open>substr\<close> is moved into the vector; what a moved-from
  string holds is unspecified and is taken to be empty.
\<close>

lemma read_until_rest_shorter:
  "read_until delim b = (stored, rest, False) \<Longrightarrow> length rest < length b"
  by (induction b arbitrary: stored) (auto split: prod.splits if_splits)

function split_loop :: "stringstream \<Rightarrow> string \<Rightarrow> char \<Rightarrow> string list \<Rightarrow> string list" where
  "split_loop ss substr delimiter splitVect =
     (if good ss then
        (case getline ss substr delimiter of
           (ss', substr') \<Rightarrow> split_loop ss' [] delimiter (splitVect @ [substr']))
      else splitVect)"
  by pat_completeness auto
termination
proof (relation "measure (\<lambda>(ss, substr, delimiter, splitVect).
                   if good ss then Suc (length (buf ss)) else 0)")
qed (auto simp: getline_def good_def split: prod.splits if_splits
       dest: read_until_rest_shorter)

definition safeSplitString :: "string \<Rightarrow> char \<Rightarrow> string list" where
  "safeSplitString str delimiter = split_loop (stringstream_of str) [] delimiter []"

section \<open>TrtCudaGraphSafe: the managed CUDA graph\<close>

subsection \<open>The driver, seen from the class\<close>

text \<open>
  The CUDA runtime is vendor code. Its handles are opaque pointers, modelled as addresses;
  a status is the integer value of \<open>cudaError_t\<close>.
\<close>

type_synonym cudaError_t = int
type_synonym cudaStreamCaptureMode = int
type_synonym cudaStream_t = nat
type_synonym cudaGraph_t = nat
type_synonym cudaGraphExec_t = nat

definition nullptr :: nat where
  "nullptr = 0"

text \<open>
  The three enumerators of cuda\_runtime.h that the class names. The header is not part of
  the repository, so their values are a parameter.
\<close>

record cuda_enum =
  cudaSuccess :: cudaError_t
  cudaErrorStreamCaptureInvalidated :: cudaError_t
  cudaStreamCaptureModeGlobal :: cudaStreamCaptureMode

text \<open>The values of the vendor header, used to run the model on concrete inputs.\<close>

definition cuda_runtime_enum :: cuda_enum where
  "cuda_runtime_enum =
     \<lparr>cudaSuccess = 0, cudaErrorStreamCaptureInvalidated = 901,
      cudaStreamCaptureModeGlobal = 0\<rparr>"

text \<open>
  The seven driver functions the class calls, over a device state \<open>'d\<close> that only the
  driver reads and writes. A function with an output pointer gets the value stored behind
  the pointer and returns the value stored there after the call (the same value when the
  driver writes nothing).
\<close>

record 'd cuda_driver =
  cudaStreamBeginCapture :: "cudaStream_t \<Rightarrow> cudaStreamCaptureMode \<Rightarrow> 'd \<Rightarrow> cudaError_t \<times> 'd"
  cudaStreamEndCapture :: "cudaStream_t \<Rightarrow> cudaGraph_t \<Rightarrow> 'd \<Rightarrow> (cudaError_t \<times> cudaGraph_t) \<times> 'd"
  cudaGraphInstantiate ::
    "cudaGraphExec_t \<Rightarrow> cudaGraph_t \<Rightarrow> 'd \<Rightarrow> (cudaError_t \<times> cudaGraphExec_t) \<times> 'd"
  cudaGraphDestroy :: "cudaGraph_t \<Rightarrow> 'd \<Rightarrow> cudaError_t \<times> 'd"
  cudaGraphExecDestroy :: "cudaGraphExec_t \<Rightarrow> 'd \<Rightarrow> cudaError_t \<times> 'd"
  cudaGraphLaunch :: "cudaGraphExec_t \<Rightarrow> cudaStream_t \<Rightarrow> 'd \<Rightarrow> cudaError_t \<times> 'd"
  cudaGetLastError :: "'d \<Rightarrow> cudaError_t \<times> 'd"

text \<open>
  What the process does that can be seen from outside: each driver call with its arguments
  and its results, the lines written to \<open>std::cerr\<close> by the two macros, and the lines
  written to \<open>gLogError\<close>.
\<close>

datatype event =
    StreamBeginCapture cudaStream_t cudaStreamCaptureMode cudaError_t
  | StreamEndCapture cudaStream_t cudaError_t cudaGraph_t
  | GraphInstantiate cudaGraph_t cudaError_t cudaGraphExec_t
  | GraphDestroy cudaGraph_t cudaError_t
  | GraphExecDestroy cudaGraphExec_t cudaError_t
  | GraphLaunch cudaGraphExec_t cudaStream_t cudaError_t
  | GetLastError cudaError_t
  | CudaFailure cudaError_t
  | AssertionFailure string
  | LogError string

record 'd world =
  device :: 'd
  trace :: "event list"

definition emit :: "event \<Rightarrow> 'd world \<Rightarrow> 'd world" where
  "emit ev w = w\<lparr>trace := trace w @ [ev]\<rparr>"

text \<open>A call either returns or ends in \<open>abort()\<close>; both leave a world behind.\<close>

datatype ('a, 'd) outcome =
    Abort "'d world"
  | Return 'a "'d world"

fun aborted :: "('a, 'd) outcome \<Rightarrow> bool" where
  "aborted (Abort w) = True"
| "aborted (Return x w) = False"

fun world_of :: "('a, 'd) outcome \<Rightarrow> 'd world" where
  "world_of (Abort w) = w"
| "world_of (Return x w) = w"

fun bind :: "('a, 'd) outcome \<Rightarrow> ('a \<Rightarrow> 'd world \<Rightarrow> ('b, 'd) outcome) \<Rightarrow> ('b, 'd) outcome" where
  "bind (Abort w) f = Abort w"
| "bind (Return x w) f = f x w"

subsection \<open>The macros\<close>

text \<open>\<open>CHECK(status)\<close>: a status other than 0 is printed and the process aborts.\<close>

definition CHECK :: "cudaError_t \<Rightarrow> 'd world \<Rightarrow> (unit, 'd) outcome" where
  "CHECK ret w = (if ret \<noteq> 0 then Abort (emit (CudaFailure ret) w) else Return () w)"

text \<open>\<open>SAFE_ASSERT(condition)\<close>, with the text of the condition that it prints.\<close>

definition SAFE_ASSERT :: "bool \<Rightarrow> string \<Rightarrow> 'd world \<Rightarrow> (unit, 'd) outcome" where
  "SAFE_ASSERT condition text w =
     (if \<not> condition then Abort (emit (AssertionFailure text) w) else Return () w)"

subsection \<open>Driver calls, recorded\<close>

definition call_cudaStreamBeginCapture ::
  "'d cuda_driver \<Rightarrow> cudaStream_t \<Rightarrow> cudaStreamCaptureMode \<Rightarrow> 'd world \<Rightarrow> cudaError_t \<times> 'd world" where
  "call_cudaStreamBeginCapture D stream mode w =
     (case cudaStreamBeginCapture D stream mode (device w) of
        (ret, dev) \<Rightarrow> (ret, emit (StreamBeginCapture stream mode ret) (w\<lparr>device := dev\<rparr>)))"

definition call_cudaStreamEndCapture ::
  "'d cuda_driver \<Rightarrow> cudaStream_t \<Rightarrow> cudaGraph_t \<Rightarrow> 'd world
     \<Rightarrow> (cudaError_t \<times> cudaGraph_t) \<times> 'd world" where
  "call_cudaStreamEndCapture D stream pGraph w =
     (case cudaStreamEndCapture D stream pGraph (device w) of
        ((ret, g), dev) \<Rightarrow> ((ret, g), emit (StreamEndCapture stream ret g) (w\<lparr>device := dev\<rparr>)))"

definition call_cudaGraphInstantiate ::
  "'d cuda_driver \<Rightarrow> cudaGraphExec_t \<Rightarrow> cudaGraph_t \<Rightarrow> 'd world
     \<Rightarrow> (cudaError_t \<times> cudaGraphExec_t) \<times> 'd world" where
  "call_cudaGraphInstantiate D pGraphExec g w =
     (case cudaGraphInstantiate D pGraphExec g (device w) of
        ((ret, e), dev) \<Rightarrow> ((ret, e), emit (GraphInstantiate g ret e) (w\<lparr>device := dev\<rparr>)))"

definition call_cudaGraphDestroy ::
  "'d cuda_driver \<Rightarrow> cudaGraph_t \<Rightarrow> 'd world \<Rightarrow> cudaError_t \<times> 'd world" where
  "call_cudaGraphDestroy D g w =
     (case cudaGraphDestroy D g (device w) of
        (ret, dev) \<Rightarrow> (ret, emit (GraphDestroy g ret) (w\<lparr>device := dev\<rparr>)))"

definition call_cudaGraphExecDestroy ::
  "'d cuda_driver \<Rightarrow> cudaGraphExec_t \<Rightarrow> 'd world \<Rightarrow> cudaError_t \<times> 'd world" where
  "call_cudaGraphExecDestroy D e w =
     (case cudaGraphExecDestroy D e (device w) of
        (ret, dev) \<Rightarrow> (ret, emit (GraphExecDestroy e ret) (w\<lparr>device := dev\<rparr>)))"

definition call_cudaGraphLaunch ::
  "'d cuda_driver \<Rightarrow> cudaGraphExec_t \<Rightarrow> cudaStream_t \<Rightarrow> 'd world \<Rightarrow> cudaError_t \<times> 'd world" where
  "call_cudaGraphLaunch D e stream w =
     (case cudaGraphLaunch D e stream (device w) of
        (ret, dev) \<Rightarrow> (ret, emit (GraphLaunch e stream ret) (w\<lparr>device := dev\<rparr>)))"

definition call_cudaGetLastError :: "'d cuda_driver \<Rightarrow> 'd world \<Rightarrow> cudaError_t \<times> 'd world" where
  "call_cudaGetLastError D w =
     (case cudaGetLastError D (device w) of
        (ret, dev) \<Rightarrow> (ret, emit (GetLastError ret) (w\<lparr>device := dev\<rparr>)))"

subsection \<open>The class\<close>

record TrtCudaGraphSafe =
  mGraph :: cudaGraph_t
  mGraphExec :: cudaGraphExec_t

text \<open>The defaulted constructor: both members are value-initialised.\<close>

definition TrtCudaGraphSafe_new :: TrtCudaGraphSafe where
  "TrtCudaGraphSafe_new = \<lparr>mGraph = nullptr, mGraphExec = nullptr\<rparr>"

text \<open>The destructor; the status of \<open>cudaGraphExecDestroy\<close> is not looked at.\<close>

definition TrtCudaGraphSafe_delete :: "'d cuda_driver \<Rightarrow> TrtCudaGraphSafe \<Rightarrow> 'd world \<Rightarrow> 'd world" where
  "TrtCudaGraphSafe_delete D this w =
     (if mGraphExec this \<noteq> nullptr
      then snd (call_cudaGraphExecDestroy D (mGraphExec this) w)
      else w)"

definition beginCapture ::
  "cuda_enum \<Rightarrow> 'd cuda_driver \<Rightarrow> TrtCudaGraphSafe \<Rightarrow> cudaStream_t \<Rightarrow> 'd world
     \<Rightarrow> (TrtCudaGraphSafe, 'd) outcome" where
  "beginCapture K D this stream w =
     (case call_cudaStreamBeginCapture D stream (cudaStreamCaptureModeGlobal K) w of
        (ret, w1) \<Rightarrow> bind (CHECK ret w1) (\<lambda>_ w2. Return this w2))"

definition launch ::
  "cuda_enum \<Rightarrow> 'd cuda_driver \<Rightarrow> TrtCudaGraphSafe \<Rightarrow> cudaStream_t \<Rightarrow> 'd world
     \<Rightarrow> (bool, 'd) outcome" where
  "launch K D this stream w =
     (case call_cudaGraphLaunch D (mGraphExec this) stream w of
        (ret, w1) \<Rightarrow> Return (ret = cudaSuccess K) w1)"

text \<open>
  \<open>endCapture\<close>: three checked driver calls. The first writes \<open>mGraph\<close>, the second
  writes \<open>mGraphExec\<close>; nothing is written to \<open>mGraph\<close> after the third.
\<close>

definition endCapture ::
  "cuda_enum \<Rightarrow> 'd cuda_driver \<Rightarrow> TrtCudaGraphSafe \<Rightarrow> cudaStream_t \<Rightarrow> 'd world
     \<Rightarrow> (TrtCudaGraphSafe, 'd) outcome" where
  "endCapture K D this stream w =
     (case call_cudaStreamEndCapture D stream (mGraph this) w of
        ((ret1, g), w1) \<Rightarrow>
          bind (CHECK ret1 w1) (\<lambda>_ w2.
            (case call_cudaGraphInstantiate D (mGraphExec this) g w2 of
               ((ret2, e), w3) \<Rightarrow>
                 bind (CHECK ret2 w3) (\<lambda>_ w4.
                   (case call_cudaGraphDestroy D g w4 of
                      (ret3, w5) \<Rightarrow>
                        bind (CHECK ret3 w5) (\<lambda>_ w6.
                          Return (this\<lparr>mGraph := g, mGraphExec := e\<rparr>) w6))))))"

definition capture_failed_message :: string where
  "capture_failed_message = ''The CUDA graph capture on the stream has failed.''"

definition endCaptureOnError ::
  "cuda_enum \<Rightarrow> 'd cuda_driver \<Rightarrow> TrtCudaGraphSafe \<Rightarrow> cudaStream_t \<Rightarrow> 'd world
     \<Rightarrow> (TrtCudaGraphSafe, 'd) outcome" where
  "endCaptureOnError K D this stream w =
     (case call_cudaStreamEndCapture D stream (mGraph this) w of
        ((ret, g), w1) \<Rightarrow>
          bind
            (if ret = cudaErrorStreamCaptureInvalidated K then
               bind (SAFE_ASSERT (g = nullptr) ''mGraph == nullptr'' w1) (\<lambda>_ w2.
                 Return (this\<lparr>mGraph := g\<rparr>) w2)
             else
               bind (SAFE_ASSERT (ret = cudaSuccess K) ''ret == cudaSuccess'' w1) (\<lambda>_ w2.
                 bind (SAFE_ASSERT (g \<noteq> nullptr) ''mGraph != nullptr'' w2) (\<lambda>_ w3.
                   (case call_cudaGraphDestroy D g w3 of
                      (ret3, w4) \<Rightarrow>
                        bind (CHECK ret3 w4) (\<lambda>_ w5.
                          Return (this\<lparr>mGraph := nullptr\<rparr>) w5)))))
            (\<lambda>this' w6.
               (case call_cudaGetLastError D w6 of
                  (_, w7) \<Rightarrow> Return this' (emit (LogError capture_failed_message) w7))))"

subsection \<open>A caller: method calls between construction and destruction\<close>

datatype member_call =
    BeginCapture cudaStream_t
  | EndCapture cudaStream_t
  | EndCaptureOnError cudaStream_t
  | Launch cudaStream_t

fun step ::
  "cuda_enum \<Rightarrow> 'd cuda_driver \<Rightarrow> TrtCudaGraphSafe \<Rightarrow> member_call \<Rightarrow> 'd world
     \<Rightarrow> (TrtCudaGraphSafe, 'd) outcome" where
  "step K D this (BeginCapture stream) w = beginCapture K D this stream w"
| "step K D this (EndCapture stream) w = endCapture K D this stream w"
| "step K D this (EndCaptureOnError stream) w = endCaptureOnError K D this stream w"
| "step K D this (Launch stream) w = bind (launch K D this stream w) (\<lambda>_ w'. Return this w')"

fun run ::
  "cuda_enum \<Rightarrow> 'd cuda_driver \<Rightarrow> TrtCudaGraphSafe \<Rightarrow> member_call list \<Rightarrow> 'd world
     \<Rightarrow> (TrtCudaGraphSafe, 'd) outcome" where
  "run K D this [] w = Return this w"
| "run K D this (m # ms) w = bind (step K D this m w) (\<lambda>this' w'. run K D this' ms w')"

text \<open>The whole life of one object in a fresh process: construct, call, destroy.\<close>

definition lifetime ::
  "cuda_enum \<Rightarrow> 'd cuda_driver \<Rightarrow> member_call list \<Rightarrow> 'd \<Rightarrow> (unit, 'd) outcome" where
  "lifetime K D ms dev =
     bind (run K D TrtCudaGraphSafe_new ms \<lparr>device = dev, trace = []\<rparr>) (\<lambda>this w.
       Return () (TrtCudaGraphSafe_delete D this w))"

text \<open>
  Modelled from the spec: the lifecycle state machine that callers keep to. The class does
  not enforce it, and no caller is among the sources.
  \<open>Empty \<rightarrow> Capturing (beginCapture) \<rightarrow> {Instantiated (endCapture) |
  EmptyAfterError (endCaptureOnError)}\<close>, launches only in \<open>Instantiated\<close>, and no way back to
  \<open>Capturing\<close>.
\<close>

datatype phase = Empty | Capturing | Instantiated | EmptyAfterError

fun transition :: "phase \<Rightarrow> member_call \<Rightarrow> phase option" where
  "transition Empty (BeginCapture stream) = Some Capturing"
| "transition Capturing (EndCapture stream) = Some Instantiated"
| "transition Capturing (EndCaptureOnError stream) = Some EmptyAfterError"
| "transition Instantiated (Launch stream) = Some Instantiated"
| "transition _ _ = None"

fun allowed :: "phase \<Rightarrow> member_call list \<Rightarrow> bool" where
  "allowed p [] = True"
| "allowed p (m # ms) = (case transition p m of None \<Rightarrow> False | Some p' \<Rightarrow> allowed p' ms)"

text \<open>Resource accounting on a trace: the handles produced and the handles destroyed.\<close>

fun captured_graphs :: "event list \<Rightarrow> cudaGraph_t list" where
  "captured_graphs [] = []"
| "captured_graphs (StreamEndCapture stream ret g # evs) = g # captured_graphs evs"
| "captured_graphs (ev # evs) = captured_graphs evs"

fun destroyed_graphs :: "event list \<Rightarrow> cudaGraph_t list" where
  "destroyed_graphs [] = []"
| "destroyed_graphs (GraphDestroy g ret # evs) = g # destroyed_graphs evs"
| "destroyed_graphs (ev # evs) = destroyed_graphs evs"

fun instantiated_execs :: "event list \<Rightarrow> cudaGraphExec_t list" where
  "instantiated_execs [] = []"
| "instantiated_execs (GraphInstantiate g ret e # evs) = e # instantiated_execs evs"
| "instantiated_execs (ev # evs) = instantiated_execs evs"

fun destroyed_execs :: "event list \<Rightarrow> cudaGraphExec_t list" where
  "destroyed_execs [] = []"
| "destroyed_execs (GraphExecDestroy e ret # evs) = e # destroyed_execs evs"
| "destroyed_execs (ev # evs) = destroyed_execs evs"

text \<open>
  A driver that answers from a script, to run the model: every call succeeds with status 0
  except where a status is given; the device state counts the calls.
\<close>

record script =
  begin_capture_status :: cudaError_t
  end_capture_status :: cudaError_t
  end_capture_graph :: cudaGraph_t
  instantiate_exec :: cudaGraphExec_t
  launch_status :: cudaError_t

definition scripted_driver :: "script \<Rightarrow> nat cuda_driver" where
  "scripted_driver S =
     \<lparr>cudaStreamBeginCapture = (\<lambda>stream mode n. (begin_capture_status S, Suc n)),
      cudaStreamEndCapture =
        (\<lambda>stream pGraph n. ((end_capture_status S, end_capture_graph S), Suc n)),
      cudaGraphInstantiate = (\<lambda>pGraphExec g n. ((0, instantiate_exec S), Suc n)),
      cudaGraphDestroy = (\<lambda>g n. (0, Suc n)),
      cudaGraphExecDestroy = (\<lambda>e n. (0, Suc n)),
      cudaGraphLaunch = (\<lambda>e stream n. (launch_status S, Suc n)),
      cudaGetLastError = (\<lambda>n. (0, Suc n))\<rparr>"

definition script_ok :: script where
  "script_ok =
     \<lparr>begin_capture_status = 0, end_capture_status = 0, end_capture_graph = 5,
      instantiate_exec = 7, launch_status = 0\<rparr>"

definition fresh_process :: "nat world" where
  "fresh_process = \<lparr>device = 0, trace = []\<rparr>"

text \<open>
  The invariant of the resource accounting, by phase: what the trace holds and what
  \<open>mGraphExec\<close> holds after the calls that lead to the phase.
\<close>

definition accounted :: "phase \<Rightarrow> TrtCudaGraphSafe \<Rightarrow> event list \<Rightarrow> bool" where
  "accounted p this T =
     (destroyed_execs T = []
      \<and> length (captured_graphs T) \<le> 1
      \<and> length (destroyed_graphs T) \<le> 1
      \<and> filter (\<lambda>g. g \<noteq> nullptr) (destroyed_graphs T) =
          filter (\<lambda>g. g \<noteq> nullptr) (captured_graphs T)
      \<and> instantiated_execs T = (if p = Instantiated then [mGraphExec this] else [])
      \<and> (p \<noteq> Instantiated \<longrightarrow> mGraphExec this = nullptr)
      \<and> (p = Empty \<or> p = Capturing \<longrightarrow> captured_graphs T = [] \<and> destroyed_graphs T = []))"

section \<open>Properties of the helpers\<close>

subsection \<open>safeSplitString\<close>

lemma read_until_snoc:
  "read_until delim (b @ [delim]) =
     (case read_until delim b of
        (stored, rest, at_end) \<Rightarrow> (stored, if at_end then [] else rest @ [delim], False))"
  by (induction b) (auto split: prod.splits)

lemma split_loop_not_good: "\<not> good ss \<Longrightarrow> split_loop ss substr delim acc = acc"
  by simp

lemma split_loop_good:
  "good ss \<Longrightarrow> read_until delim (buf ss) = (stored, rest, at_end) \<Longrightarrow>
   split_loop ss substr delim acc =
     split_loop \<lparr>buf = rest, eofbit = at_end, failbit = (at_end \<and> stored = [])\<rparr> [] delim
       (acc @ [stored])"
  by (subst split_loop.simps) (simp add: getline_def)

declare split_loop.simps [simp del]

text \<open>The loop only ever appends to the vector.\<close>

lemma split_loop_length: "length acc \<le> length (split_loop ss substr delim acc)"
proof (induction ss substr delim acc rule: split_loop.induct)
  case (1 ss substr delimiter splitVect)
  show ?case
  proof (cases "good ss")
    case False
    then show ?thesis by (simp add: split_loop_not_good)
  next
    case True
    obtain stored rest at_end where e: "read_until delimiter (buf ss) = (stored, rest, at_end)"
      by (cases "read_until delimiter (buf ss)") auto
    let ?next = "\<lparr>buf = rest, eofbit = at_end, failbit = (at_end \<and> stored = [])\<rparr>"
    have g: "getline ss substr delimiter = (?next, stored)"
      using True e by (simp add: getline_def)
    have "length (splitVect @ [stored])
        \<le> length (split_loop ?next [] delimiter (splitVect @ [stored]))"
      using "1.IH" [OF True g [symmetric]] .
    then show ?thesis using split_loop_good [OF True e] by simp
  qed
qed

text \<open>
  One more delimiter at the end of the buffer gives one more, empty, field: after the last
  field the stream is still good, and the next \<open>getline\<close> stores nothing.
\<close>

lemma split_loop_snoc:
  "good ss \<Longrightarrow>
   split_loop (ss\<lparr>buf := buf ss @ [delim]\<rparr>) substr delim acc =
   split_loop ss substr delim acc @ [[]]"
proof (induction ss substr delim acc rule: split_loop.induct)
  case (1 ss substr delimiter splitVect)
  obtain stored rest at_end where e: "read_until delimiter (buf ss) = (stored, rest, at_end)"
    by (cases "read_until delimiter (buf ss)") auto
  let ?next = "\<lparr>buf = rest, eofbit = at_end, failbit = (at_end \<and> stored = [])\<rparr>"
  have g: "getline ss substr delimiter = (?next, stored)"
    using "1.prems" e by (simp add: getline_def)
  have g': "good (ss\<lparr>buf := buf ss @ [delimiter]\<rparr>)"
    using "1.prems" by (simp add: good_def)
  have lhs: "split_loop (ss\<lparr>buf := buf ss @ [delimiter]\<rparr>) substr delimiter splitVect =
      split_loop
        \<lparr>buf = (if at_end then [] else rest @ [delimiter]), eofbit = False, failbit = False\<rparr>
        [] delimiter (splitVect @ [stored])"
    using split_loop_good [OF g', of delimiter stored
        "if at_end then [] else rest @ [delimiter]" False substr splitVect] e
    by (simp add: read_until_snoc)
  have rhs: "split_loop ss substr delimiter splitVect =
      split_loop ?next [] delimiter (splitVect @ [stored])"
    using split_loop_good [OF "1.prems" e] .
  show ?case
  proof (cases at_end)
    case True
    have "split_loop \<lparr>buf = [], eofbit = False, failbit = False\<rparr> [] delimiter
            (splitVect @ [stored]) = splitVect @ [stored] @ [[]]"
      by (subst split_loop_good [of _ delimiter "[]" "[]" True])
         (simp_all add: good_def split_loop_not_good)
    moreover have "split_loop ?next [] delimiter (splitVect @ [stored]) = splitVect @ [stored]"
      using True by (simp add: split_loop_not_good good_def)
    ultimately show ?thesis using lhs rhs True by simp
  next
    case False
    have gn: "good ?next" using False by (simp add: good_def)
    have "split_loop (?next\<lparr>buf := buf ?next @ [delimiter]\<rparr>) [] delimiter
            (splitVect @ [stored])
        = split_loop ?next [] delimiter (splitVect @ [stored]) @ [[]]"
      using "1.IH" [OF "1.prems" g [symmetric] gn] .
    then show ?thesis using lhs rhs False by simp
  qed
qed

text \<open>
  C8: for every string and delimiter, \<open>safeSplitString\<close> returns a vector that is not
  empty; the empty string gives exactly one empty string; and an input that ends in the
  delimiter gives the fields of the input without that delimiter followed by one more,
  empty, field, so a trailing empty field is never dropped.
\<close>

theorem safeSplitString_nonempty_trailing:
  "safeSplitString str delimiter \<noteq> []
   \<and> safeSplitString [] delimiter = [[]]
   \<and> safeSplitString (str @ [delimiter]) delimiter = safeSplitString str delimiter @ [[]]
   \<and> last (safeSplitString (str @ [delimiter]) delimiter) = []"
proof -
  have g0: "good (stringstream_of s)" for s
    by (simp add: good_def stringstream_of_def)
  obtain stored rest at_end where e: "read_until delimiter str = (stored, rest, at_end)"
    by (cases "read_until delimiter str") auto
  have "safeSplitString str delimiter =
      split_loop \<lparr>buf = rest, eofbit = at_end, failbit = (at_end \<and> stored = [])\<rparr> []
        delimiter ([] @ [stored])"
    unfolding safeSplitString_def
    by (rule split_loop_good [OF g0]) (simp add: stringstream_of_def e)
  then have "length [stored] \<le> length (safeSplitString str delimiter)"
    using split_loop_length [of "[stored]"] by simp
  then have a: "safeSplitString str delimiter \<noteq> []" by auto
  have b: "safeSplitString [] delimiter = [[]]"
    unfolding safeSplitString_def
    by (subst split_loop_good [OF g0, of delimiter _ "[]" "[]" True])
       (simp_all add: stringstream_of_def good_def split_loop_not_good)
  have c: "safeSplitString (str @ [delimiter]) delimiter = safeSplitString str delimiter @ [[]]"
    using split_loop_snoc [OF g0, of str delimiter "[]" "[]"]
    by (simp add: safeSplitString_def stringstream_of_def)
  show ?thesis using a b c by simp
qed

theorem safeSplitString_nonempty_trailing_witness:
  "safeSplitString ''a,'' CHR '','' = [''a'', []]
   \<and> safeSplitString ''a'' CHR '','' = [''a'']
   \<and> safeSplitString [] CHR '','' = [[]]"
proof -
  have one: "safeSplitString ''a'' CHR '','' = [''a'']"
    by (simp add: safeSplitString_def stringstream_of_def good_def
          split_loop_good [of _ "CHR '',''" "''a''" "[]" True] split_loop_not_good)
  show ?thesis
    using one safeSplitString_nonempty_trailing [of "''a''" "CHR '',''"]
      safeSplitString_nonempty_trailing [of "[]" "CHR '',''"]
    by simp
qed

subsection \<open>elementSize\<close>

text \<open>
  C9: \<open>elementSize\<close> is a total function of the data-type code and has no failing branch:
  it is 4 for the 32-bit integer and float, 2 for half, 1 for each of the four one-byte
  types, and 0 for every code that is none of the seven labels. The labels of a switch are
  pairwise different, which is the hypothesis.
\<close>

theorem elementSize_cases:
  assumes "distinct (case_labels E)"
  shows "elementSize E (kINT32 E) = 4 \<and> elementSize E (kFLOAT E) = 4
    \<and> elementSize E (kHALF E) = 2
    \<and> elementSize E (kINT8 E) = 1 \<and> elementSize E (kUINT8 E) = 1
    \<and> elementSize E (kBOOL E) = 1 \<and> elementSize E (kFP8 E) = 1
    \<and> (\<forall>t. t \<notin> set (case_labels E) \<longrightarrow> elementSize E t = 0)"
proof -
  have half: "kHALF E \<noteq> kINT32 E" "kHALF E \<noteq> kFLOAT E"
    using assms by (auto simp: case_labels_def)
  have int8: "kINT8 E \<noteq> kINT32 E" "kINT8 E \<noteq> kFLOAT E" "kINT8 E \<noteq> kHALF E"
    using assms by (auto simp: case_labels_def)
  have uint8: "kUINT8 E \<noteq> kINT32 E" "kUINT8 E \<noteq> kFLOAT E" "kUINT8 E \<noteq> kHALF E"
    using assms by (auto simp: case_labels_def)
  have bool: "kBOOL E \<noteq> kINT32 E" "kBOOL E \<noteq> kFLOAT E" "kBOOL E \<noteq> kHALF E"
    using assms by (auto simp: case_labels_def)
  have fp8: "kFP8 E \<noteq> kINT32 E" "kFP8 E \<noteq> kFLOAT E" "kFP8 E \<noteq> kHALF E"
    using assms by (auto simp: case_labels_def)
  have c1: "elementSize E (kINT32 E) = 4" "elementSize E (kFLOAT E) = 4"
    by (simp_all add: elementSize_def)
  have c2: "elementSize E (kHALF E) = 2"
    using half by (simp add: elementSize_def)
  have c3: "elementSize E (kINT8 E) = 1"
    using int8 by (simp add: elementSize_def)
  have c4: "elementSize E (kUINT8 E) = 1"
    using uint8 by (simp add: elementSize_def)
  have c5: "elementSize E (kBOOL E) = 1"
    using bool by (simp add: elementSize_def)
  have c6: "elementSize E (kFP8 E) = 1"
    using fp8 by (simp add: elementSize_def)
  have c7: "\<forall>t. t \<notin> set (case_labels E) \<longrightarrow> elementSize E t = 0"
    by (simp add: elementSize_def case_labels_def)
  show ?thesis using c1 c2 c3 c4 c5 c6 c7 by blast
qed

theorem elementSize_cases_witness:
  "distinct (case_labels tensorrt_DataType)
   \<and> elementSize tensorrt_DataType 3 = 4
   \<and> elementSize tensorrt_DataType 1 = 2
   \<and> elementSize tensorrt_DataType 6 = 1
   \<and> (7::int32_t) \<notin> set (case_labels tensorrt_DataType)
   \<and> elementSize tensorrt_DataType 7 = 0"
proof -
  have h: "distinct (case_labels tensorrt_DataType)"
    by (simp add: tensorrt_DataType_def case_labels_def)
  have n: "(7::int32_t) \<notin> set (case_labels tensorrt_DataType)"
    by (simp add: tensorrt_DataType_def case_labels_def)
  have k: "kINT32 tensorrt_DataType = 3" "kHALF tensorrt_DataType = 1"
    "kFP8 tensorrt_DataType = 6"
    by (simp_all add: tensorrt_DataType_def)
  show ?thesis using h n k elementSize_cases [OF h] by metis
qed

subsection \<open>volume\<close>

lemma max_int32_clamp: "sint (batch::int32_t) \<le> 1 \<Longrightarrow> max_int32 batch 1 = 1"
proof (cases "sint batch < 1")
  case True
  then show ?thesis by (simp add: max_int32_def)
next
  case False
  assume "sint batch \<le> 1"
  with False have "sint batch = sint (1::int32_t)" by simp
  then have "batch = 1" by (rule signed_word_eqI)
  then show ?thesis by (simp add: max_int32_def)
qed

text \<open>
  C10: for every dims, vecDim and comps, and every batch that is at most 1 as a signed
  number (0 and the negative values included), the four-argument \<open>volume\<close> gives what it
  gives at batch 1, faults included: \<open>std::max(batch, 1)\<close> is 1 there.
\<close>

theorem volume4_batch_clamped:
  assumes "sint batch \<le> 1"
  shows "volume4 dims vecDim comps batch = volume4 dims vecDim comps 1"
proof -
  have "max_int32 batch 1 = max_int32 1 1"
    using assms by (simp add: max_int32_clamp)
  then show ?thesis
    by (simp add: volume4_def cong: sum.case_cong)
qed

theorem volume4_batch_clamped_witness:
  "sint (- 3 :: int32_t) \<le> 1
   \<and> volume4 \<lparr>nbDims = 3, d = [2, 3, 5, 0, 0, 0, 0, 0]\<rparr> 1 4 (- 3) = Inr 40
   \<and> volume4 \<lparr>nbDims = 3, d = [2, 3, 5, 0, 0, 0, 0, 0]\<rparr> 1 4 1 = Inr 40"
proof -
  have h: "sint (- 3 :: int32_t) \<le> 1" by simp
  have v: "volume4 \<lparr>nbDims = 3, d = [2, 3, 5, 0, 0, 0, 0, 0]\<rparr> 1 4 1 = Inr 40"
    by (simp add: volume4_def volume_def roundUp_def max_int32_def INT32_MIN_def
          signed_divide_int_def)
  show ?thesis
    using h v volume4_batch_clamped [OF h, of "\<lparr>nbDims = 3, d = [2, 3, 5, 0, 0, 0, 0, 0]\<rparr>" 1 4]
    by simp
qed

section \<open>Properties of TrtCudaGraphSafe\<close>

subsection \<open>What each method does, by the driver's answers\<close>

lemmas call_defs =
  call_cudaStreamBeginCapture_def call_cudaStreamEndCapture_def call_cudaGraphInstantiate_def
  call_cudaGraphDestroy_def call_cudaGraphExecDestroy_def call_cudaGraphLaunch_def
  call_cudaGetLastError_def emit_def

lemmas method_defs =
  beginCapture_def endCapture_def endCaptureOnError_def launch_def TrtCudaGraphSafe_delete_def
  CHECK_def SAFE_ASSERT_def

lemmas run_defs =
  scripted_driver_def script_ok_def fresh_process_def cuda_runtime_enum_def
  TrtCudaGraphSafe_new_def nullptr_def

lemma beginCapture_eq:
  assumes "cudaStreamBeginCapture D stream (cudaStreamCaptureModeGlobal K) (device w) = (ret, dev)"
  shows "beginCapture K D this stream w =
    (if ret \<noteq> 0
     then Abort (w\<lparr>device := dev, trace := trace w @
            [StreamBeginCapture stream (cudaStreamCaptureModeGlobal K) ret, CudaFailure ret]\<rparr>)
     else Return this (w\<lparr>device := dev, trace := trace w @
            [StreamBeginCapture stream (cudaStreamCaptureModeGlobal K) ret]\<rparr>))"
  using assms by (simp add: beginCapture_def CHECK_def call_defs)

lemma endCapture_eq:
  assumes "cudaStreamEndCapture D stream (mGraph this) (device w) = ((ret1, g), dev)"
  defines "w1 \<equiv> w\<lparr>device := dev, trace := trace w @ [StreamEndCapture stream ret1 g]\<rparr>"
  defines "i \<equiv> call_cudaGraphInstantiate D (mGraphExec this) g w1"
  defines "x \<equiv> call_cudaGraphDestroy D g (snd i)"
  shows "endCapture K D this stream w =
    (if ret1 \<noteq> 0 then Abort (emit (CudaFailure ret1) w1)
     else if fst (fst i) \<noteq> 0 then Abort (emit (CudaFailure (fst (fst i))) (snd i))
     else if fst x \<noteq> 0 then Abort (emit (CudaFailure (fst x)) (snd x))
     else Return (this\<lparr>mGraph := g, mGraphExec := snd (fst i)\<rparr>) (snd x))"
  using assms(1) unfolding w1_def i_def x_def
  by (simp add: endCapture_def call_cudaStreamEndCapture_def emit_def CHECK_def
      split: prod.splits)

lemma endCaptureOnError_eq:
  assumes "cudaStreamEndCapture D stream (mGraph this) (device w) = ((ret, g), dev)"
  defines "w1 \<equiv> w\<lparr>device := dev, trace := trace w @ [StreamEndCapture stream ret g]\<rparr>"
  defines "x \<equiv> call_cudaGraphDestroy D g w1"
  shows "endCaptureOnError K D this stream w =
    (if ret = cudaErrorStreamCaptureInvalidated K then
       (if g \<noteq> nullptr then Abort (emit (AssertionFailure ''mGraph == nullptr'') w1)
        else Return (this\<lparr>mGraph := g\<rparr>)
               (emit (LogError capture_failed_message) (snd (call_cudaGetLastError D w1))))
     else if ret \<noteq> cudaSuccess K then Abort (emit (AssertionFailure ''ret == cudaSuccess'') w1)
     else if g = nullptr then Abort (emit (AssertionFailure ''mGraph != nullptr'') w1)
     else if fst x \<noteq> 0 then Abort (emit (CudaFailure (fst x)) (snd x))
     else Return (this\<lparr>mGraph := nullptr\<rparr>)
            (emit (LogError capture_failed_message) (snd (call_cudaGetLastError D (snd x)))))"
  using assms(1) unfolding w1_def x_def
  by (simp add: endCaptureOnError_def call_cudaStreamEndCapture_def emit_def SAFE_ASSERT_def
      CHECK_def split: prod.splits)

lemma captured_graphs_append [simp]:
  "captured_graphs (xs @ ys) = captured_graphs xs @ captured_graphs ys"
  by (induction xs rule: captured_graphs.induct) simp_all

lemma destroyed_graphs_append [simp]:
  "destroyed_graphs (xs @ ys) = destroyed_graphs xs @ destroyed_graphs ys"
  by (induction xs rule: destroyed_graphs.induct) simp_all

lemma instantiated_execs_append [simp]:
  "instantiated_execs (xs @ ys) = instantiated_execs xs @ instantiated_execs ys"
  by (induction xs rule: instantiated_execs.induct) simp_all

lemma destroyed_execs_append [simp]:
  "destroyed_execs (xs @ ys) = destroyed_execs xs @ destroyed_execs ys"
  by (induction xs rule: destroyed_execs.induct) simp_all

subsection \<open>endCapture\<close>

text \<open>
  What a returning \<open>endCapture\<close> leaves, for every driver: the three calls were made on the
  handle that the end of the capture stored and each gave status 0, \<open>mGraphExec\<close> holds the
  handle that the instantiation stored, and \<open>mGraph\<close> still holds the handle that was
  destroyed.
\<close>

lemma endCapture_on_return:
  assumes r: "cudaStreamEndCapture D stream (mGraph this) (device w) = ((ret1, g), dev)"
    and e: "endCapture K D this stream w = Return this' w'"
  shows "mGraph this' = g
    \<and> trace w' = trace w @
        [StreamEndCapture stream 0 g, GraphInstantiate g 0 (mGraphExec this'), GraphDestroy g 0]"
  using e unfolding endCapture_eq [OF r]
  by (auto simp: call_defs split: if_splits prod.splits)

text \<open>
  C1: after a successful \<open>endCapture\<close> the executable graph is non-null and the graph
  descriptor is null; in particular after \<open>beginCapture\<close> followed at once by
  \<open>endCapture\<close>. The code is run here on a driver whose calls all succeed, with the
  descriptor handle 5 and the executable handle 7: the calls return, \<open>mGraphExec\<close> is 7,
  the descriptor 5 has been destroyed, and \<open>mGraph\<close> is still 5, not null.
\<close>

theorem endCapture_descriptor_not_cleared:
  "run cuda_runtime_enum (scripted_driver script_ok) TrtCudaGraphSafe_new
      [BeginCapture 1, EndCapture 1] fresh_process =
     Return \<lparr>mGraph = 5, mGraphExec = 7\<rparr>
       \<lparr>device = 4,
        trace = [StreamBeginCapture 1 0 0, StreamEndCapture 1 0 5, GraphInstantiate 5 0 7,
                 GraphDestroy 5 0]\<rparr>
   \<and> mGraph \<lparr>mGraph = 5, mGraphExec = 7\<rparr> \<noteq> nullptr
   \<and> mGraphExec \<lparr>mGraph = 5, mGraphExec = 7\<rparr> \<noteq> nullptr"
  by (simp add: beginCapture_def endCapture_def CHECK_def call_defs run_defs)

subsection \<open>endCaptureOnError\<close>

text \<open>
  C2: for every call of \<open>endCaptureOnError\<close>, with \<open>ret\<close> and \<open>g\<close> the status and the
  descriptor that the driver's end of capture leaves. If \<open>ret\<close> is the capture-invalidated
  status, a non-null \<open>g\<close> is a failed assertion and the process aborts, and with a null
  \<open>g\<close> the call returns with a null descriptor and destroys nothing. For any other
  status, a status that is not success, or a null \<open>g\<close>, is a failed assertion and the
  process aborts; otherwise \<open>g\<close> is passed to \<open>cudaGraphDestroy\<close>, once, the process aborts
  exactly when that call's status is not 0, and a call that returns leaves the descriptor
  null.
\<close>

theorem endCaptureOnError_branches:
  assumes r: "cudaStreamEndCapture D stream (mGraph this) (device w) = ((ret, g), dev)"
  shows
   "(ret = cudaErrorStreamCaptureInvalidated K \<longrightarrow>
       (g \<noteq> nullptr \<longrightarrow>
          aborted (endCaptureOnError K D this stream w)
          \<and> last (trace (world_of (endCaptureOnError K D this stream w))) =
              AssertionFailure ''mGraph == nullptr'')
     \<and> (g = nullptr \<longrightarrow>
          (\<exists>this' w'. endCaptureOnError K D this stream w = Return this' w'
             \<and> mGraph this' = nullptr
             \<and> destroyed_graphs (trace w') = destroyed_graphs (trace w))))
    \<and> (ret \<noteq> cudaErrorStreamCaptureInvalidated K \<longrightarrow>
       (ret \<noteq> cudaSuccess K \<longrightarrow>
          aborted (endCaptureOnError K D this stream w)
          \<and> last (trace (world_of (endCaptureOnError K D this stream w))) =
              AssertionFailure ''ret == cudaSuccess'')
     \<and> (ret = cudaSuccess K \<and> g = nullptr \<longrightarrow>
          aborted (endCaptureOnError K D this stream w)
          \<and> last (trace (world_of (endCaptureOnError K D this stream w))) =
              AssertionFailure ''mGraph != nullptr'')
     \<and> (ret = cudaSuccess K \<and> g \<noteq> nullptr \<longrightarrow>
          destroyed_graphs (trace (world_of (endCaptureOnError K D this stream w))) =
            destroyed_graphs (trace w) @ [g]
          \<and> (aborted (endCaptureOnError K D this stream w) \<longleftrightarrow>
               fst (cudaGraphDestroy D g dev) \<noteq> 0)
          \<and> (\<forall>this' w'. endCaptureOnError K D this stream w = Return this' w' \<longrightarrow>
               mGraph this' = nullptr)))"
  unfolding endCaptureOnError_eq [OF r]
  by (simp add: call_defs split: prod.splits)

theorem endCaptureOnError_branches_witness:
  "cudaStreamEndCapture (scripted_driver script_ok) 1 (mGraph TrtCudaGraphSafe_new)
      (device fresh_process) = ((0, 5), 1)
   \<and> \<not> aborted (endCaptureOnError cuda_runtime_enum (scripted_driver script_ok)
          TrtCudaGraphSafe_new 1 fresh_process)
   \<and> destroyed_graphs (trace (world_of (endCaptureOnError cuda_runtime_enum
          (scripted_driver script_ok) TrtCudaGraphSafe_new 1 fresh_process))) = [5]
   \<and> cudaStreamEndCapture
        (scripted_driver (script_ok\<lparr>end_capture_status := 901, end_capture_graph := 3\<rparr>)) 1
        (mGraph TrtCudaGraphSafe_new) (device fresh_process) = ((901, 3), 1)
   \<and> aborted (endCaptureOnError cuda_runtime_enum
        (scripted_driver (script_ok\<lparr>end_capture_status := 901, end_capture_graph := 3\<rparr>))
        TrtCudaGraphSafe_new 1 fresh_process)"
proof -
  have r1: "cudaStreamEndCapture (scripted_driver script_ok) 1 (mGraph TrtCudaGraphSafe_new)
      (device fresh_process) = ((0, 5), 1)"
    by (simp add: run_defs)
  have r2: "cudaStreamEndCapture
        (scripted_driver (script_ok\<lparr>end_capture_status := 901, end_capture_graph := 3\<rparr>)) 1
        (mGraph TrtCudaGraphSafe_new) (device fresh_process) = ((901, 3), 1)"
    by (simp add: run_defs)
  show ?thesis
    using r1 r2 endCaptureOnError_branches [OF r1, of cuda_runtime_enum]
      endCaptureOnError_branches [OF r2, of cuda_runtime_enum]
    by (simp add: run_defs)
qed

text \<open>
  C3: for every call of \<open>endCaptureOnError\<close>, with \<open>ret\<close> and \<open>g\<close> as before. Whatever the
  outcome, no instantiation is made. A call that returns, on either branch, leaves
  \<open>mGraphExec\<close> as it was, and what it did is: the end of the capture, the destruction of
  \<open>g\<close> on the second branch only, then \<open>cudaGetLastError\<close>, which clears the pending
  error, then the one line of the log, the same on both branches. (A call whose assertion
  or check fails aborts before these last two; that is C2.)
\<close>

theorem endCaptureOnError_frame:
  assumes r: "cudaStreamEndCapture D stream (mGraph this) (device w) = ((ret, g), dev)"
  shows
   "instantiated_execs (trace (world_of (endCaptureOnError K D this stream w))) =
      instantiated_execs (trace w)
    \<and> (\<not> aborted (endCaptureOnError K D this stream w) \<longrightarrow>
         (\<exists>this' w' err.
            endCaptureOnError K D this stream w = Return this' w'
            \<and> mGraphExec this' = mGraphExec this
            \<and> trace w' =
                trace w @ StreamEndCapture stream ret g #
                (if ret = cudaErrorStreamCaptureInvalidated K then [] else [GraphDestroy g 0]) @
                [GetLastError err, LogError capture_failed_message]))"
  unfolding endCaptureOnError_eq [OF r]
  by (simp add: call_defs split: prod.splits)

theorem endCaptureOnError_frame_witness:
  "cudaStreamEndCapture (scripted_driver script_ok) 1 (mGraph TrtCudaGraphSafe_new)
      (device fresh_process) = ((0, 5), 1)
   \<and> endCaptureOnError cuda_runtime_enum (scripted_driver script_ok) TrtCudaGraphSafe_new 1
        fresh_process =
      Return TrtCudaGraphSafe_new
        \<lparr>device = 3,
         trace = [StreamEndCapture 1 0 5, GraphDestroy 5 0, GetLastError 0,
                  LogError capture_failed_message]\<rparr>
   \<and> cudaStreamEndCapture
        (scripted_driver (script_ok\<lparr>end_capture_status := 901, end_capture_graph := 0\<rparr>)) 1
        (mGraph TrtCudaGraphSafe_new) (device fresh_process) = ((901, 0), 1)
   \<and> endCaptureOnError cuda_runtime_enum
        (scripted_driver (script_ok\<lparr>end_capture_status := 901, end_capture_graph := 0\<rparr>))
        TrtCudaGraphSafe_new 1 fresh_process =
      Return TrtCudaGraphSafe_new
        \<lparr>device = 2,
         trace = [StreamEndCapture 1 901 0, GetLastError 0, LogError capture_failed_message]\<rparr>"
proof -
  have r1: "cudaStreamEndCapture (scripted_driver script_ok) 1 (mGraph TrtCudaGraphSafe_new)
      (device fresh_process) = ((0, 5), 1)"
    by (simp add: run_defs)
  have r2: "cudaStreamEndCapture
        (scripted_driver (script_ok\<lparr>end_capture_status := 901, end_capture_graph := 0\<rparr>)) 1
        (mGraph TrtCudaGraphSafe_new) (device fresh_process) = ((901, 0), 1)"
    by (simp add: run_defs)
  have e1: "endCaptureOnError cuda_runtime_enum (scripted_driver script_ok)
        TrtCudaGraphSafe_new 1 fresh_process =
      Return TrtCudaGraphSafe_new
        \<lparr>device = 3,
         trace = [StreamEndCapture 1 0 5, GraphDestroy 5 0, GetLastError 0,
                  LogError capture_failed_message]\<rparr>"
    by (simp add: endCaptureOnError_def SAFE_ASSERT_def CHECK_def call_defs run_defs)
  have e2: "endCaptureOnError cuda_runtime_enum
        (scripted_driver (script_ok\<lparr>end_capture_status := 901, end_capture_graph := 0\<rparr>))
        TrtCudaGraphSafe_new 1 fresh_process =
      Return TrtCudaGraphSafe_new
        \<lparr>device = 2,
         trace = [StreamEndCapture 1 901 0, GetLastError 0, LogError capture_failed_message]\<rparr>"
    by (simp add: endCaptureOnError_def SAFE_ASSERT_def CHECK_def call_defs run_defs)
  show ?thesis
    using r1 r2 e1 e2 endCaptureOnError_frame [OF r1, of cuda_runtime_enum]
      endCaptureOnError_frame [OF r2, of cuda_runtime_enum]
    by simp
qed

subsection \<open>launch and beginCapture\<close>

text \<open>
  C4: for every stream, object and driver, \<open>launch\<close> returns a boolean and never aborts:
  it makes the one call \<open>cudaGraphLaunch\<close> on \<open>mGraphExec\<close> and the stream, and returns
  true exactly when the status of that call is \<open>cudaSuccess\<close>, false for every other
  status.
\<close>

theorem launch_returns_bool:
  "\<not> aborted (launch K D this stream w)
   \<and> launch K D this stream w =
       Return (fst (cudaGraphLaunch D (mGraphExec this) stream (device w)) = cudaSuccess K)
         (world_of (launch K D this stream w))
   \<and> trace (world_of (launch K D this stream w)) =
       trace w @
       [GraphLaunch (mGraphExec this) stream
          (fst (cudaGraphLaunch D (mGraphExec this) stream (device w)))]"
  by (simp add: launch_def call_defs split: prod.splits)

theorem launch_returns_bool_witness:
  "launch cuda_runtime_enum (scripted_driver script_ok) \<lparr>mGraph = 5, mGraphExec = 7\<rparr> 1
      fresh_process =
     Return True \<lparr>device = 1, trace = [GraphLaunch 7 1 0]\<rparr>
   \<and> launch cuda_runtime_enum (scripted_driver (script_ok\<lparr>launch_status := 719\<rparr>))
        \<lparr>mGraph = 5, mGraphExec = 7\<rparr> 1 fresh_process =
     Return False \<lparr>device = 1, trace = [GraphLaunch 7 1 719]\<rparr>"
  using
    launch_returns_bool [of cuda_runtime_enum "scripted_driver script_ok"
      "\<lparr>mGraph = 5, mGraphExec = 7\<rparr>" 1 fresh_process]
    launch_returns_bool [of cuda_runtime_enum
      "scripted_driver (script_ok\<lparr>launch_status := 719\<rparr>)"
      "\<lparr>mGraph = 5, mGraphExec = 7\<rparr>" 1 fresh_process]
  by (simp add: run_defs launch_def call_defs)

text \<open>
  C5: for every stream, object and driver, \<open>beginCapture\<close> makes one driver call,
  \<open>cudaStreamBeginCapture\<close> on the stream with the mode \<open>cudaStreamCaptureModeGlobal\<close> and
  no other, and the process aborts, after printing the status, exactly when the status of
  that call is not success; otherwise the call returns and the object is as it was. The
  macro compares the status with 0, which is the value of \<open>cudaSuccess\<close>: the hypothesis.
\<close>

theorem beginCapture_global_mode:
  assumes "cudaSuccess K = 0"
  shows
   "(aborted (beginCapture K D this stream w) \<longleftrightarrow>
       fst (cudaStreamBeginCapture D stream (cudaStreamCaptureModeGlobal K) (device w))
         \<noteq> cudaSuccess K)
    \<and> trace (world_of (beginCapture K D this stream w)) =
        trace w @
        StreamBeginCapture stream (cudaStreamCaptureModeGlobal K)
          (fst (cudaStreamBeginCapture D stream (cudaStreamCaptureModeGlobal K) (device w))) #
        (if aborted (beginCapture K D this stream w)
         then [CudaFailure
                 (fst (cudaStreamBeginCapture D stream (cudaStreamCaptureModeGlobal K)
                    (device w)))]
         else [])
    \<and> (\<not> aborted (beginCapture K D this stream w) \<longrightarrow>
         beginCapture K D this stream w =
           Return this (world_of (beginCapture K D this stream w)))"
proof -
  obtain ret dev where
    r: "cudaStreamBeginCapture D stream (cudaStreamCaptureModeGlobal K) (device w) = (ret, dev)"
    by (cases "cudaStreamBeginCapture D stream (cudaStreamCaptureModeGlobal K) (device w)")
  show ?thesis using assms by (simp add: beginCapture_eq [OF r] r)
qed

theorem beginCapture_global_mode_witness:
  "cudaSuccess cuda_runtime_enum = 0
   \<and> beginCapture cuda_runtime_enum (scripted_driver script_ok) TrtCudaGraphSafe_new 1
        fresh_process =
      Return TrtCudaGraphSafe_new \<lparr>device = 1, trace = [StreamBeginCapture 1 0 0]\<rparr>
   \<and> beginCapture cuda_runtime_enum
        (scripted_driver (script_ok\<lparr>begin_capture_status := 2\<rparr>)) TrtCudaGraphSafe_new 1
        fresh_process =
      Abort \<lparr>device = 1, trace = [StreamBeginCapture 1 0 2, CudaFailure 2]\<rparr>"
proof -
  have h: "cudaSuccess cuda_runtime_enum = 0"
    by (simp add: cuda_runtime_enum_def)
  have e1: "beginCapture cuda_runtime_enum (scripted_driver script_ok) TrtCudaGraphSafe_new 1
        fresh_process =
      Return TrtCudaGraphSafe_new \<lparr>device = 1, trace = [StreamBeginCapture 1 0 0]\<rparr>"
    by (simp add: beginCapture_def CHECK_def call_defs run_defs)
  have e2: "beginCapture cuda_runtime_enum
        (scripted_driver (script_ok\<lparr>begin_capture_status := 2\<rparr>)) TrtCudaGraphSafe_new 1
        fresh_process =
      Abort \<lparr>device = 1, trace = [StreamBeginCapture 1 0 2, CudaFailure 2]\<rparr>"
    by (simp add: beginCapture_def CHECK_def call_defs run_defs)
  show ?thesis
    using h e1 e2
      beginCapture_global_mode [OF h, of "scripted_driver script_ok" TrtCudaGraphSafe_new 1
        fresh_process]
      beginCapture_global_mode [OF h,
        of "scripted_driver (script_ok\<lparr>begin_capture_status := 2\<rparr>)" TrtCudaGraphSafe_new 1
        fresh_process]
    by simp
qed

subsection \<open>The lifecycle\<close>

lemma transition_cases:
  assumes "transition p m = Some p'"
  obtains stream where "p = Empty" "m = BeginCapture stream" "p' = Capturing"
    | stream where "p = Capturing" "m = EndCapture stream" "p' = Instantiated"
    | stream where "p = Capturing" "m = EndCaptureOnError stream" "p' = EmptyAfterError"
    | stream where "p = Instantiated" "m = Launch stream" "p' = Instantiated"
  using assms by (cases p; cases m) auto

text \<open>Each allowed call that returns takes the invariant of its phase to that of the next.\<close>

lemma step_accounted:
  assumes t: "transition p m = Some p'"
    and a: "accounted p this (trace w)"
    and s: "step K D this m w = Return this' w'"
  shows "accounted p' this' (trace w')"
  using t
proof (cases rule: transition_cases)
  case (1 stream)
  obtain ret dev where
    r: "cudaStreamBeginCapture D stream (cudaStreamCaptureModeGlobal K) (device w) = (ret, dev)"
    by (cases "cudaStreamBeginCapture D stream (cudaStreamCaptureModeGlobal K) (device w)")
  show ?thesis
    using a s 1 by (auto simp: beginCapture_eq [OF r] accounted_def split: if_splits)
next
  case (2 stream)
  obtain ret g dev where
    r: "cudaStreamEndCapture D stream (mGraph this) (device w) = ((ret, g), dev)"
    by (cases "cudaStreamEndCapture D stream (mGraph this) (device w)") auto
  show ?thesis
    using a s 2
    by (auto simp: endCapture_eq [OF r] accounted_def call_defs split: if_splits prod.splits)
next
  case (3 stream)
  obtain ret g dev where
    r: "cudaStreamEndCapture D stream (mGraph this) (device w) = ((ret, g), dev)"
    by (cases "cudaStreamEndCapture D stream (mGraph this) (device w)") auto
  show ?thesis
    using a s 3
    by (auto simp: endCaptureOnError_eq [OF r] accounted_def call_defs
        split: if_splits prod.splits)
next
  case (4 stream)
  show ?thesis
    using a s 4 by (auto simp: launch_def accounted_def call_defs split: if_splits prod.splits)
qed

lemma run_prefix_accounted:
  "allowed p (ms1 @ ms2) \<Longrightarrow> accounted p this (trace w) \<Longrightarrow>
   run K D this ms1 w = Return this1 w1 \<Longrightarrow>
   \<exists>p1. accounted p1 this1 (trace w1) \<and> allowed p1 ms2"
proof (induction ms1 arbitrary: p this w)
  case Nil
  then show ?case by auto
next
  case (Cons m ms)
  from Cons.prems(1) obtain p' where t: "transition p m = Some p'"
    and al: "allowed p' (ms @ ms2)"
    by (auto split: option.splits)
  from Cons.prems(3) obtain this' w' where s: "step K D this m w = Return this' w'"
    and r: "run K D this' ms w' = Return this1 w1"
    by (cases "step K D this m w") auto
  from step_accounted [OF t Cons.prems(2) s] have "accounted p' this' (trace w')" .
  from Cons.IH [OF al this r] show ?case .
qed

lemma run_accounted:
  assumes "allowed p ms" and "accounted p this (trace w)"
    and "run K D this ms w = Return this' w'"
  shows "\<exists>p'. accounted p' this' (trace w')"
  using run_prefix_accounted [of p ms "[]" this w K D this' w'] assms by auto

lemma accounted_new: "accounted Empty TrtCudaGraphSafe_new []"
  by (simp add: accounted_def TrtCudaGraphSafe_new_def)

text \<open>
  C6: along every execution of an allowed lifecycle that does not abort (construction, the
  calls, destruction), every non-null graph descriptor that an end of capture produced was
  passed to \<open>cudaGraphDestroy\<close> exactly once, and every non-null executable graph that was
  instantiated was passed to \<open>cudaGraphExecDestroy\<close> exactly once, as the last thing the
  execution did.
\<close>

theorem lifetime_resources_destroyed_once:
  assumes al: "allowed Empty ms"
    and l: "lifetime K D ms dev = Return () w'"
  shows "(\<forall>g \<in> set (captured_graphs (trace w')).
            g \<noteq> nullptr \<longrightarrow> count_list (destroyed_graphs (trace w')) g = 1)
       \<and> (\<forall>e \<in> set (instantiated_execs (trace w')).
            e \<noteq> nullptr \<longrightarrow>
              count_list (destroyed_execs (trace w')) e = 1
              \<and> (\<exists>ret. last (trace w') = GraphExecDestroy e ret))"
proof -
  let ?w0 = "\<lparr>device = dev, trace = []\<rparr>"
  from l obtain this1 w1 where r: "run K D TrtCudaGraphSafe_new ms ?w0 = Return this1 w1"
    and w': "w' = TrtCudaGraphSafe_delete D this1 w1"
    unfolding lifetime_def by (cases "run K D TrtCudaGraphSafe_new ms ?w0") auto
  have a0: "accounted Empty TrtCudaGraphSafe_new (trace ?w0)"
    by (simp add: accounted_new)
  from run_accounted [OF al a0 r] obtain p1 where a1: "accounted p1 this1 (trace w1)" ..
  obtain ret dev' where
    x: "cudaGraphExecDestroy D (mGraphExec this1) (device w1) = (ret, dev')"
    by (cases "cudaGraphExecDestroy D (mGraphExec this1) (device w1)")
  have T: "trace w' = trace w1 @
      (if mGraphExec this1 \<noteq> nullptr then [GraphExecDestroy (mGraphExec this1) ret] else [])"
    using x by (simp add: w' TrtCudaGraphSafe_delete_def call_defs)
  have cap: "captured_graphs (trace w') = captured_graphs (trace w1)"
    and des: "destroyed_graphs (trace w') = destroyed_graphs (trace w1)"
    and ins: "instantiated_execs (trace w') = instantiated_execs (trace w1)"
    by (simp_all add: T)
  have g: "count_list (destroyed_graphs (trace w1)) g = 1"
    if "g \<in> set (captured_graphs (trace w1))" "g \<noteq> nullptr" for g
  proof -
    from a1 have len: "length (captured_graphs (trace w1)) \<le> 1"
      and len': "length (destroyed_graphs (trace w1)) \<le> 1"
      and f: "filter (\<lambda>g. g \<noteq> nullptr) (destroyed_graphs (trace w1)) =
          filter (\<lambda>g. g \<noteq> nullptr) (captured_graphs (trace w1))"
      by (simp_all add: accounted_def)
    from len that(1) have c: "captured_graphs (trace w1) = [g]"
      by (cases "captured_graphs (trace w1)") auto
    with f that(2) have "filter (\<lambda>g. g \<noteq> nullptr) (destroyed_graphs (trace w1)) = [g]"
      by simp
    with len' have "destroyed_graphs (trace w1) = [g]"
      by (cases "destroyed_graphs (trace w1)") (auto split: if_splits)
    then show ?thesis by simp
  qed
  have e: "count_list (destroyed_execs (trace w')) e = 1
      \<and> (\<exists>ret. last (trace w') = GraphExecDestroy e ret)"
    if "e \<in> set (instantiated_execs (trace w1))" "e \<noteq> nullptr" for e
  proof -
    from a1 that have "e = mGraphExec this1" and "destroyed_execs (trace w1) = []"
      by (auto simp: accounted_def split: if_splits)
    with that(2) show ?thesis by (simp add: T)
  qed
  show ?thesis using g e by (simp add: cap des ins)
qed

theorem lifetime_resources_destroyed_once_witness:
  "allowed Empty [BeginCapture 1, EndCapture 1, Launch 1, Launch 1]
   \<and> lifetime cuda_runtime_enum (scripted_driver script_ok)
        [BeginCapture 1, EndCapture 1, Launch 1, Launch 1] 0 =
      Return ()
        \<lparr>device = 7,
         trace = [StreamBeginCapture 1 0 0, StreamEndCapture 1 0 5, GraphInstantiate 5 0 7,
                  GraphDestroy 5 0, GraphLaunch 7 1 0, GraphLaunch 7 1 0,
                  GraphExecDestroy 7 0]\<rparr>
   \<and> count_list
        (destroyed_graphs
           [StreamBeginCapture 1 0 0, StreamEndCapture 1 0 5, GraphInstantiate 5 0 7,
            GraphDestroy 5 0, GraphLaunch 7 1 0, GraphLaunch 7 1 0, GraphExecDestroy 7 0]) 5 = 1
   \<and> count_list
        (destroyed_execs
           [StreamBeginCapture 1 0 0, StreamEndCapture 1 0 5, GraphInstantiate 5 0 7,
            GraphDestroy 5 0, GraphLaunch 7 1 0, GraphLaunch 7 1 0, GraphExecDestroy 7 0]) 7 = 1"
proof -
  have al: "allowed Empty [BeginCapture 1, EndCapture 1, Launch 1, Launch 1]"
    by simp
  have l: "lifetime cuda_runtime_enum (scripted_driver script_ok)
        [BeginCapture 1, EndCapture 1, Launch 1, Launch 1] 0 =
      Return ()
        \<lparr>device = 7,
         trace = [StreamBeginCapture 1 0 0, StreamEndCapture 1 0 5, GraphInstantiate 5 0 7,
                  GraphDestroy 5 0, GraphLaunch 7 1 0, GraphLaunch 7 1 0,
                  GraphExecDestroy 7 0]\<rparr>"
    by (simp add: lifetime_def method_defs call_defs run_defs)
  show ?thesis
    using al l lifetime_resources_destroyed_once [OF al l] by (simp add: nullptr_def)
qed

text \<open>Which calls write \<open>mGraphExec\<close>, and how many instantiations a call makes.\<close>

lemma step_sets_exec:
  assumes "step K D this m w = Return this' w'" and "mGraphExec this' \<noteq> mGraphExec this"
  shows "\<exists>stream. m = EndCapture stream"
proof (cases m)
  case (BeginCapture stream)
  obtain ret dev where
    r: "cudaStreamBeginCapture D stream (cudaStreamCaptureModeGlobal K) (device w) = (ret, dev)"
    by (cases "cudaStreamBeginCapture D stream (cudaStreamCaptureModeGlobal K) (device w)")
  show ?thesis
    using assms BeginCapture by (auto simp: beginCapture_eq [OF r] split: if_splits)
next
  case (EndCapture stream)
  then show ?thesis by simp
next
  case (EndCaptureOnError stream)
  obtain ret g dev where
    r: "cudaStreamEndCapture D stream (mGraph this) (device w) = ((ret, g), dev)"
    by (cases "cudaStreamEndCapture D stream (mGraph this) (device w)") auto
  show ?thesis
    using assms EndCaptureOnError by (auto simp: endCaptureOnError_eq [OF r] split: if_splits)
next
  case (Launch stream)
  show ?thesis using assms Launch by (auto simp: launch_def split: prod.splits)
qed

lemma step_instantiations:
  "length (instantiated_execs (trace (world_of (step K D this m w))))
     \<le> length (instantiated_execs (trace w)) + (case m of EndCapture stream \<Rightarrow> 1 | _ \<Rightarrow> 0)"
proof (cases m)
  case (BeginCapture stream)
  obtain ret dev where
    r: "cudaStreamBeginCapture D stream (cudaStreamCaptureModeGlobal K) (device w) = (ret, dev)"
    by (cases "cudaStreamBeginCapture D stream (cudaStreamCaptureModeGlobal K) (device w)")
  show ?thesis using BeginCapture by (simp add: beginCapture_eq [OF r])
next
  case (EndCapture stream)
  obtain ret g dev where
    r: "cudaStreamEndCapture D stream (mGraph this) (device w) = ((ret, g), dev)"
    by (cases "cudaStreamEndCapture D stream (mGraph this) (device w)") auto
  show ?thesis
    using EndCapture by (simp add: endCapture_eq [OF r] call_defs split: prod.splits)
next
  case (EndCaptureOnError stream)
  obtain ret g dev where
    r: "cudaStreamEndCapture D stream (mGraph this) (device w) = ((ret, g), dev)"
    by (cases "cudaStreamEndCapture D stream (mGraph this) (device w)") auto
  show ?thesis
    using EndCaptureOnError
    by (simp add: endCaptureOnError_eq [OF r] call_defs split: prod.splits)
next
  case (Launch stream)
  show ?thesis using Launch by (simp add: launch_def call_defs split: prod.splits)
qed

lemma run_instantiations:
  "allowed p ms \<Longrightarrow>
   length (instantiated_execs (trace (world_of (run K D this ms w))))
     \<le> length (instantiated_execs (trace w)) + (if p = Empty \<or> p = Capturing then 1 else 0)"
proof (induction ms arbitrary: p this w)
  case Nil
  then show ?case by simp
next
  case (Cons m ms)
  from Cons.prems obtain p1 where t: "transition p m = Some p1" and al: "allowed p1 ms"
    by (auto split: option.splits)
  note st = step_instantiations [of K D this m w]
  show ?case
  proof (cases "step K D this m w")
    case (Abort w1)
    with st t show ?thesis by (cases rule: transition_cases [OF t]) auto
  next
    case (Return this1 w1)
    note ih = Cons.IH [OF al, of this1 w1]
    from t show ?thesis
      by (cases rule: transition_cases) (use st ih Return in auto)
  qed
qed

lemma run_launches:
  "allowed Instantiated ms \<Longrightarrow> run K D this ms w = Return this' w' \<Longrightarrow> this' = this"
proof (induction ms arbitrary: w)
  case Nil
  then show ?case by simp
next
  case (Cons m ms)
  from Cons.prems(1) obtain stream where m: "m = Launch stream"
    and al: "allowed Instantiated ms"
    by (cases m) (auto split: option.splits)
  from Cons.prems(2) m obtain w1 where "run K D this ms w1 = Return this' w'"
    by (auto simp: launch_def split: prod.splits)
  from Cons.IH [OF al this] show ?case .
qed

text \<open>
  C7: for every object and every sequence of calls that the lifecycle state machine allows,
  from construction on: \<open>mGraphExec\<close> is written at most once, since at most one
  instantiation is made, whether or not the sequence runs to its end; a call that returns
  with \<open>mGraphExec\<close> changed is an \<open>endCapture\<close>; and once \<open>mGraphExec\<close> is non-null, no
  later call of the sequence changes it.
\<close>

theorem mGraphExec_set_at_most_once:
  assumes al: "allowed Empty ms"
  shows "length (instantiated_execs
           (trace (world_of (run K D TrtCudaGraphSafe_new ms \<lparr>device = dev, trace = []\<rparr>))))
           \<le> 1
    \<and> (\<forall>this m w this' w'.
          step K D this m w = Return this' w' \<and> mGraphExec this' \<noteq> mGraphExec this
          \<longrightarrow> (\<exists>stream. m = EndCapture stream))
    \<and> (\<forall>ms1 ms2 this1 w1 this2 w2.
          ms = ms1 @ ms2
          \<and> run K D TrtCudaGraphSafe_new ms1 \<lparr>device = dev, trace = []\<rparr> = Return this1 w1
          \<and> run K D this1 ms2 w1 = Return this2 w2
          \<and> mGraphExec this1 \<noteq> nullptr
          \<longrightarrow> mGraphExec this2 = mGraphExec this1)"
proof -
  let ?w0 = "\<lparr>device = dev, trace = []\<rparr> :: 'a world"
  have a: "length (instantiated_execs
      (trace (world_of (run K D TrtCudaGraphSafe_new ms ?w0)))) \<le> 1"
    using run_instantiations [OF al, of K D TrtCudaGraphSafe_new ?w0] by simp
  have b: "\<exists>stream. m = EndCapture stream"
    if "step K D this m w = Return this' w'" "mGraphExec this' \<noteq> mGraphExec this"
    for this m and w :: "'a world" and this' w'
    using that by (rule step_sets_exec)
  have c: "mGraphExec this2 = mGraphExec this1"
    if "ms = ms1 @ ms2" "run K D TrtCudaGraphSafe_new ms1 ?w0 = Return this1 w1"
      "run K D this1 ms2 w1 = Return this2 w2" "mGraphExec this1 \<noteq> nullptr"
    for ms1 ms2 this1 w1 this2 w2
  proof -
    have a0: "accounted Empty TrtCudaGraphSafe_new (trace ?w0)"
      by (simp add: accounted_new)
    from al that(1) have "allowed Empty (ms1 @ ms2)" by simp
    from run_prefix_accounted [OF this a0 that(2)]
    obtain p1 where p1: "accounted p1 this1 (trace w1)" "allowed p1 ms2" by blast
    from p1(1) that(4) have "p1 = Instantiated" by (auto simp: accounted_def)
    with p1(2) that(3) have "this2 = this1" by (auto dest: run_launches)
    then show ?thesis by simp
  qed
  show ?thesis using a b c by blast
qed

theorem mGraphExec_set_at_most_once_witness:
  "allowed Empty [BeginCapture 1, EndCapture 1, Launch 1]
   \<and> run cuda_runtime_enum (scripted_driver script_ok) TrtCudaGraphSafe_new
        [BeginCapture 1, EndCapture 1, Launch 1] \<lparr>device = 0, trace = []\<rparr> =
      Return \<lparr>mGraph = 5, mGraphExec = 7\<rparr>
        \<lparr>device = 5,
         trace = [StreamBeginCapture 1 0 0, StreamEndCapture 1 0 5, GraphInstantiate 5 0 7,
                  GraphDestroy 5 0, GraphLaunch 7 1 0]\<rparr>
   \<and> length (instantiated_execs
        [StreamBeginCapture 1 0 0, StreamEndCapture 1 0 5, GraphInstantiate 5 0 7,
         GraphDestroy 5 0, GraphLaunch 7 1 0]) \<le> 1"
proof -
  have al: "allowed Empty [BeginCapture 1, EndCapture 1, Launch 1]"
    by simp
  have r: "run cuda_runtime_enum (scripted_driver script_ok) TrtCudaGraphSafe_new
        [BeginCapture 1, EndCapture 1, Launch 1] \<lparr>device = 0, trace = []\<rparr> =
      Return \<lparr>mGraph = 5, mGraphExec = 7\<rparr>
        \<lparr>device = 5,
         trace = [StreamBeginCapture 1 0 0, StreamEndCapture 1 0 5, GraphInstantiate 5 0 7,
                  GraphDestroy 5 0, GraphLaunch 7 1 0]\<rparr>"
    by (simp add: method_defs call_defs run_defs)
  show ?thesis
    using al r
      mGraphExec_set_at_most_once [OF al, of cuda_runtime_enum "scripted_driver script_ok" 0]
    by simp
qed

end
